theory Spec2Isabelle
  imports Complex_Main
begin

section \<open>Data model\<close>

text \<open>
  A post as the widget reads it: \<open>id\<close> (here \<open>post_id\<close>), \<open>created_time\<close> (a
  timestamp string) and an optional \<open>message\<close>. The other fields of a post are only read
  by the HTML templates.
\<close>

record post =
  post_id :: string
  created_time :: string
  message :: "string option"

text \<open>
  A JavaScript \<open>Date\<close> object: a time value in milliseconds since the epoch, or the
  Invalid Date (time value \<open>NaN\<close>).
\<close>

datatype date = Date int | InvalidDate

text \<open>A thrown JavaScript error; only its \<open>message\<close> is ever read.\<close>

datatype js_error = Error (error_message: string)

text \<open>
  What \<open>fetch\<close> does with one request: after \<open>latency\<close> milliseconds it either rejects
  (the network failed) or resolves to a response with a status and a body;
  \<open>response.json()\<close> on that body either rejects (\<open>Inl\<close>) or yields the payload.
\<close>

datatype outcome = Rejects js_error | Responds nat "js_error + post list"

record exchange =
  latency :: nat
  outcome :: outcome

text \<open>
  The host environment, fixed during a run: the page's hostname, the network (the exchange
  that answers the \<open>n\<close>-th request of the page, by URL), the error an aborted \<open>fetch\<close>
  rejects with, and the built-ins the module calls: \<open>JSON.stringify\<close>, \<open>JSON.parse\<close>
  (\<open>None\<close>: it throws), \<open>Date.prototype.toISOString\<close>, \<open>new Date(string)\<close>, whether
  \<open>localStorage.setItem\<close> accepts a write (it throws when the quota is exceeded), and the
  offset of local time from UTC in milliseconds (taken as constant).
\<close>

record host =
  hostname :: string
  network :: "string \<Rightarrow> nat \<Rightarrow> exchange"
  abortError :: js_error
  JSON_stringify :: "post list \<Rightarrow> string"
  JSON_parse :: "string \<Rightarrow> post list option"
  toISOString :: "int \<Rightarrow> string"
  Date_parse :: "string \<Rightarrow> date"
  quota_ok :: "(string \<rightharpoonup> string) \<Rightarrow> string \<Rightarrow> string \<Rightarrow> bool"
  tzOffset :: int

text \<open>
  The mutable world outside the widget: \<open>localStorage\<close>, the clock (milliseconds since
  the epoch), the URLs requested so far and the backoff delays waited so far.
\<close>

record world =
  localStorage :: "string \<rightharpoonup> string"
  clock :: int
  requests :: "string list"
  waits :: "nat list"

text \<open>
  The object \<open>getFromCache\<close> returns, and the one \<open>fetchFeed\<close> returns, which has the
  same two fields and two more. \<open>data\<close> is \<open>None\<close> for JavaScript's \<open>undefined\<close>.
\<close>

record cachedFeed =
  data :: "post list option"
  timestamp :: date

record feedResult = cachedFeed +
  fromCache :: bool
  error :: "string option"

section \<open>The API module\<close>

definition CACHE_KEY :: string where
  "CACHE_KEY = ''securent-fb-cache''"

definition CACHE_TIME_KEY :: string where
  "CACHE_TIME_KEY = ''securent-fb-cache-time''"

definition API_TIMEOUT :: nat where
  "API_TIMEOUT = 5000"

definition getApiUrl :: "host \<Rightarrow> string \<Rightarrow> string" where
  "getApiUrl h apiUrl =
     (if hostname h = ''localhost'' \<or> hostname h = ''127.0.0.1'' \<or> hostname h = ''''
      then ''mock-data.json''
      else apiUrl)"

text \<open>\<open>localStorage.setItem\<close> and \<open>localStorage.getItem\<close>.\<close>

definition setItem :: "host \<Rightarrow> string \<Rightarrow> string \<Rightarrow> world \<Rightarrow> js_error + world" where
  "setItem h k v w =
     (if quota_ok h (localStorage w) k v
      then Inr (w\<lparr>localStorage := (localStorage w)(k \<mapsto> v)\<rparr>)
      else Inl (Error ''QuotaExceededError''))"

definition getItem :: "string \<Rightarrow> world \<Rightarrow> string option" where
  "getItem k w = localStorage w k"

text \<open>
  \<open>saveToCache\<close>: two writes inside one \<open>try\<close>; the \<open>catch\<close> only logs, so a write that
  throws leaves the world as the writes before it made it.
\<close>

definition saveToCache :: "host \<Rightarrow> post list \<Rightarrow> world \<Rightarrow> world" where
  "saveToCache h d w =
     (case setItem h CACHE_KEY (JSON_stringify h d) w of
        Inl e \<Rightarrow> w
      | Inr w1 \<Rightarrow>
          (case setItem h CACHE_TIME_KEY (toISOString h (clock w1)) w1 of
             Inl e \<Rightarrow> w1
           | Inr w2 \<Rightarrow> w2))"

text \<open>
  \<open>getFromCache\<close>: both items must be truthy (present and not the empty string); a
  \<open>JSON.parse\<close> that throws is caught and the result is \<open>null\<close>.
\<close>

definition getFromCache :: "host \<Rightarrow> world \<Rightarrow> cachedFeed option" where
  "getFromCache h w =
     (case (getItem CACHE_KEY w, getItem CACHE_TIME_KEY w) of
        (Some d, Some t) \<Rightarrow>
          (if d \<noteq> [] \<and> t \<noteq> [] then
             (case JSON_parse h d of
                None \<Rightarrow> None
              | Some ps \<Rightarrow> Some \<lparr>data = Some ps, timestamp = Date_parse h t\<rparr>)
           else None)
      | _ \<Rightarrow> None)"

text \<open>Decimal digits of a number, as a template literal prints \<open>response.status\<close>.\<close>

fun showNat :: "nat \<Rightarrow> string" where
  "showNat n =
     (if n < 10 then [''0123456789'' ! n]
      else showNat (n div 10) @ [''0123456789'' ! (n mod 10)])"

declare showNat.simps [simp del]

definition response_ok :: "nat \<Rightarrow> bool" where
  "response_ok st \<longleftrightarrow> 200 \<le> st \<and> st \<le> 299"

text \<open>
  What the \<open>try\<close> block of one attempt comes to, given the exchange that answers its
  request: the abort timer fires when no response has arrived after \<open>API_TIMEOUT\<close>; a
  response that is not ok throws one of two errors; then \<open>response.json()\<close>.
\<close>

definition settle :: "host \<Rightarrow> exchange \<Rightarrow> js_error + post list" where
  "settle h x =
     (if API_TIMEOUT \<le> latency x then Inl (abortError h)
      else
        (case outcome x of
           Rejects e \<Rightarrow> Inl e
         | Responds st body \<Rightarrow>
             (if \<not> response_ok st then
                (if 400 \<le> st \<and> st < 500
                 then Inl (Error (''API error: '' @ showNat st))
                 else Inl (Error (''HTTP '' @ showNat st)))
              else body)))"

text \<open>
  One attempt: the request is issued, time passes until the response or the abort, and a
  payload that was received is handed to \<open>saveToCache\<close> before it is returned.
\<close>

definition attemptFetch :: "host \<Rightarrow> string \<Rightarrow> world \<Rightarrow> (js_error + post list) \<times> world" where
  "attemptFetch h url w =
     (let x = network h url (length (requests w));
          w1 = w\<lparr>requests := requests w @ [url],
                  clock := clock w + int (min (latency x) API_TIMEOUT)\<rparr>
      in case settle h x of
           Inl e \<Rightarrow> (Inl e, w1)
         | Inr d \<Rightarrow> (Inr d, saveToCache h d w1))"

definition delays :: "nat list" where
  "delays = [1000, 2000]"

definition sleep :: "nat \<Rightarrow> world \<Rightarrow> world" where
  "sleep ms w = w\<lparr>clock := clock w + int ms, waits := waits w @ [ms]\<rparr>"

text \<open>The wait at the end of the \<open>catch\<close> block: \<open>delays[attempt]\<close> when there is one.\<close>

definition backoff :: "nat \<Rightarrow> world \<Rightarrow> world" where
  "backoff attempt w = (if attempt < length delays then sleep (delays ! attempt) w else w)"

text \<open>
  The \<open>for\<close> loop of \<open>fetchWithRetry\<close>, from \<open>attempt\<close> on. The \<open>catch\<close> block is the
  \<open>Inl\<close> branch: it rethrows on the last attempt, and otherwise waits and goes round
  again, whatever the error was. A loop that runs out without returning makes the
  function return \<open>undefined\<close>.
\<close>

function fetchLoop ::
  "host \<Rightarrow> string \<Rightarrow> nat \<Rightarrow> nat \<Rightarrow> world \<Rightarrow> (js_error + post list option) \<times> world" where
  "fetchLoop h url retries attempt w =
     (if attempt \<le> retries then
        (case attemptFetch h url w of
           (Inr d, w') \<Rightarrow> (Inr (Some d), w')
         | (Inl e, w') \<Rightarrow>
             (if attempt = retries then (Inl e, w')
              else fetchLoop h url retries (attempt + 1) (backoff attempt w')))
      else (Inr None, w))"
  by pat_completeness auto
termination
  by (relation "measure (\<lambda>(h, url, retries, attempt, w). Suc retries - attempt)") auto

declare fetchLoop.simps [simp del]

definition fetchWithRetry ::
  "host \<Rightarrow> string \<Rightarrow> nat \<Rightarrow> world \<Rightarrow> (js_error + post list option) \<times> world" where
  "fetchWithRetry h url retries w = fetchLoop h url retries 0 w"

text \<open>\<open>fetchFeed\<close>: the live fetch with the default of two retries, then the cache.\<close>

definition fetchFeed :: "host \<Rightarrow> string \<Rightarrow> world \<Rightarrow> (js_error + feedResult) \<times> world" where
  "fetchFeed h apiUrl w =
     (case fetchWithRetry h (getApiUrl h apiUrl) 2 w of
        (Inr d, w') \<Rightarrow>
          (Inr \<lparr>data = d, timestamp = Date (clock w'), fromCache = False, error = None\<rparr>, w')
      | (Inl e, w') \<Rightarrow>
          (case getFromCache h w' of
             Some cached \<Rightarrow>
               (Inr \<lparr>data = data cached, timestamp = timestamp cached, fromCache = True,
                     error = Some (error_message e)\<rparr>, w')
           | None \<Rightarrow> (Inl e, w')))"

definition getCachedFeed :: "host \<Rightarrow> world \<Rightarrow> cachedFeed option" where
  "getCachedFeed h w = getFromCache h w"

section \<open>The widget module\<close>

subsection \<open>Strings and dates of the platform\<close>

text \<open>
  \<open>String.prototype.split\<close> on a one-character separator, \<open>trim\<close>, \<open>toLowerCase\<close>
  and \<open>includes\<close> (here \<open>includesStr\<close>). Strings are lists of 8-bit characters here, so case folding and white
  space are those of ASCII.
\<close>

fun split :: "char \<Rightarrow> string \<Rightarrow> string list" where
  "split c [] = [[]]"
| "split c (x # xs) =
     (if x = c then [] # split c xs
      else (case split c xs of
              [] \<Rightarrow> [[x]]
            | y # ys \<Rightarrow> (x # y) # ys))"

definition isSpace :: "char \<Rightarrow> bool" where
  "isSpace c \<longleftrightarrow> c \<in> set [CHR '' '', CHR 0x09, CHR 0x0A, CHR 0x0B, CHR 0x0C, CHR 0x0D]"

definition trim :: "string \<Rightarrow> string" where
  "trim s = rev (dropWhile isSpace (rev (dropWhile isSpace s)))"

definition lowerChar :: "char \<Rightarrow> char" where
  "lowerChar c =
     (let n = (of_char c :: nat) in if 65 \<le> n \<and> n \<le> 90 then char_of (n + 32) else c)"

definition toLowerCase :: "string \<Rightarrow> string" where
  "toLowerCase s = map lowerChar s"

fun startsWith :: "string \<Rightarrow> string \<Rightarrow> bool" where
  "startsWith s [] = True"
| "startsWith [] (k # ks) = False"
| "startsWith (x # xs) (k # ks) = (x = k \<and> startsWith xs ks)"

fun includesStr :: "string \<Rightarrow> string \<Rightarrow> bool" where
  "includesStr [] k = (k = [])"
| "includesStr (x # xs) k = (startsWith (x # xs) k \<or> includesStr xs k)"

text \<open>
  Relational comparison of two \<open>Date\<close> objects: of their time values, and false as soon
  as one of them is \<open>NaN\<close>.
\<close>

fun date_lt :: "date \<Rightarrow> date \<Rightarrow> bool" where
  "date_lt (Date a) (Date b) = (a < b)"
| "date_lt _ _ = False"

fun date_gt :: "date \<Rightarrow> date \<Rightarrow> bool" where
  "date_gt (Date a) (Date b) = (a > b)"
| "date_gt _ _ = False"

definition msPerDay :: int where
  "msPerDay = 86400000"

definition TimeClip :: "int \<Rightarrow> date" where
  "TimeClip v = (if \<bar>v\<bar> > 8640000000000000 then InvalidDate else Date v)"

text \<open>
  \<open>Date.prototype.setHours(hour, min, sec, ms)\<close>: the time within the local day is
  replaced, the local day is kept.
\<close>

definition setHours :: "host \<Rightarrow> date \<Rightarrow> int \<Rightarrow> int \<Rightarrow> int \<Rightarrow> int \<Rightarrow> date" where
  "setHours h d hour minute sec ms =
     (case d of
        InvalidDate \<Rightarrow> InvalidDate
      | Date t \<Rightarrow>
          (let local = t + tzOffset h;
               day = local div msPerDay;
               time = hour * 3600000 + minute * 60000 + sec * 1000 + ms
           in TimeClip (day * msPerDay + time - tzOffset h)))"

text \<open>
  \<open>Array.prototype.slice(start, end)\<close> on integers: a negative index counts from the
  end, and both are clamped to the array.
\<close>

definition slice :: "'a list \<Rightarrow> int \<Rightarrow> int \<Rightarrow> 'a list" where
  "slice xs start fin =
     (let len = int (length xs);
          k = (if start < 0 then max (len + start) 0 else min start len);
          final = (if fin < 0 then max (len + fin) 0 else min fin len)
      in take (nat (final - k)) (drop (nat k) xs))"

subsection \<open>State of a widget\<close>

text \<open>
  The options the constructor receives (each may be absent; \<open>cfg_itemsPerPage\<close> is what
  \<open>parseInt\<close> makes of the attribute, \<open>None\<close> for \<open>NaN\<close>), the options it keeps, and
  the fields of the instance. \<open>view\<close> stands for the element's \<open>innerHTML\<close>: nothing, the
  skeleton, a rendered page (its posts, the number of pages, whether the cache notice and
  the refresh spinner show) or the error box. \<open>renders\<close> and \<open>scrolls\<close> count the calls
  of \<open>render\<close> and \<open>scrollIntoView\<close>; \<open>observing\<close> says that the intersection observer
  still watches the element.
\<close>

record config =
  cfg_apiUrl :: "string option"
  cfg_itemsPerPage :: "int option"
  cfg_filterKeywords :: "string option"
  cfg_startDate :: "string option"
  cfg_endDate :: "string option"

record widget_options =
  apiUrl :: string
  itemsPerPage :: int

datatype view = Blank | Skeleton | Feed "post list" int bool bool | ErrorBox

record widget =
  options :: widget_options
  filterKeywords :: "string list option"
  startDate :: "date option"
  endDate :: "date option"
  posts :: "post list"
  currentPage :: int
  isLoading :: bool
  observing :: bool
  widget_fromCache :: bool
  cacheTimestamp :: "date option"
  view :: view
  renders :: nat
  scrolls :: nat

definition truthy :: "string option \<Rightarrow> bool" where
  "truthy s \<longleftrightarrow> (case s of None \<Rightarrow> False | Some v \<Rightarrow> v \<noteq> [])"

definition parseKeywords :: "string \<Rightarrow> string list" where
  "parseKeywords s = filter (\<lambda>k. k \<noteq> []) (map (\<lambda>k. toLowerCase (trim k)) (split CHR '';'' s))"

definition constructor :: "host \<Rightarrow> config \<Rightarrow> widget" where
  "constructor h c =
     \<lparr>options =
        \<lparr>apiUrl =
           (if truthy (cfg_apiUrl c) then the (cfg_apiUrl c)
            else ''https://securent.nt.gov.au/_design/integration-points/socials/facebook-securent/_nocache''),
         itemsPerPage =
           (case cfg_itemsPerPage c of
              None \<Rightarrow> 5
            | Some n \<Rightarrow> if n = 0 then 5 else n)\<rparr>,
      filterKeywords =
        (if truthy (cfg_filterKeywords c) then Some (parseKeywords (the (cfg_filterKeywords c)))
         else None),
      startDate =
        (if truthy (cfg_startDate c) then Some (Date_parse h (the (cfg_startDate c))) else None),
      endDate =
        (if truthy (cfg_endDate c) then Some (Date_parse h (the (cfg_endDate c))) else None),
      posts = [],
      currentPage = 1,
      isLoading = False,
      observing = True,
      widget_fromCache = False,
      cacheTimestamp = None,
      view = Blank,
      renders = 0,
      scrolls = 0\<rparr>"

subsection \<open>Filtering\<close>

text \<open>
  The callback of \<open>posts.filter\<close> in \<open>filterPosts\<close>, with its three early
  \<open>return false\<close>.
\<close>

definition keepPost :: "host \<Rightarrow> widget \<Rightarrow> post \<Rightarrow> bool" where
  "keepPost h w p =
     (let postDate = Date_parse h (created_time p) in
      if (startDate w \<noteq> None \<or> endDate w \<noteq> None) \<and>
         (case startDate w of None \<Rightarrow> False | Some s \<Rightarrow> date_lt postDate s)
      then False
      else if (startDate w \<noteq> None \<or> endDate w \<noteq> None) \<and>
              (case endDate w of
                 None \<Rightarrow> False
               | Some e \<Rightarrow> date_gt postDate (setHours h e 23 59 59 999))
      then False
      else
        (case filterKeywords w of
           None \<Rightarrow> True
         | Some ks \<Rightarrow>
             (if length ks > 0 then
                (let msg = toLowerCase (case message p of None \<Rightarrow> [] | Some m \<Rightarrow> m)
                 in if \<not> list_ex (\<lambda>keyword. includesStr msg keyword) ks then False else True)
              else True)))"

definition filterPosts :: "host \<Rightarrow> widget \<Rightarrow> post list option \<Rightarrow> post list" where
  "filterPosts h w ps =
     (case ps of
        None \<Rightarrow> []
      | Some xs \<Rightarrow> if length xs = 0 then [] else filter (keepPost h w) xs)"

subsection \<open>Rendering and pagination\<close>

text \<open>
  \<open>Math.ceil(this.posts.length / this.options.itemsPerPage)\<close>. The constructor never
  stores a page size of zero, so the division is one of two integers, the second not zero.
\<close>

definition totalPages :: "widget \<Rightarrow> int" where
  "totalPages w = \<lceil>real (length (posts w)) / real_of_int (itemsPerPage (options w))\<rceil>"

definition render :: "widget \<Rightarrow> widget" where
  "render w =
     (let start = (currentPage w - 1) * itemsPerPage (options w);
          fin = start + itemsPerPage (options w);
          pagePosts = slice (posts w) start fin
      in w\<lparr>view := Feed pagePosts (totalPages w) (widget_fromCache w) False,
            renders := renders w + 1\<rparr>)"

definition goToPage :: "widget \<Rightarrow> int \<Rightarrow> widget" where
  "goToPage w page =
     (if page < 1 \<or> page > totalPages w then w
      else (render (w\<lparr>currentPage := page\<rparr>))\<lparr>scrolls := scrolls w + 1\<rparr>)"

text \<open>
  \<open>showSkeletonLoader\<close> builds \<open>Array(itemsPerPage)\<close>, which throws a \<open>RangeError\<close> on a
  negative length; \<open>showLoadingState\<close> turns the spinner on when a page is rendered.
\<close>

definition showSkeletonLoader :: "widget \<Rightarrow> js_error + widget" where
  "showSkeletonLoader w =
     (if itemsPerPage (options w) < 0 then Inl (Error ''Invalid array length'')
      else Inr (w\<lparr>view := Skeleton\<rparr>))"

definition showLoadingState :: "widget \<Rightarrow> widget" where
  "showLoadingState w =
     (case view w of
        Feed ps n notice spinner \<Rightarrow> w\<lparr>view := Feed ps n notice True\<rparr>
      | _ \<Rightarrow> w)"

definition showError :: "host \<Rightarrow> world \<Rightarrow> widget \<Rightarrow> widget" where
  "showError h s w =
     (case getCachedFeed h s of
        Some cached \<Rightarrow>
          render (w\<lparr>posts := filterPosts h w (data cached),
                    widget_fromCache := True,
                    cacheTimestamp := Some (timestamp cached),
                    currentPage := 1\<rparr>)
      | None \<Rightarrow> w\<lparr>view := ErrorBox\<rparr>)"

subsection \<open>Loading\<close>

text \<open>
  \<open>loadFeed\<close> is an \<open>async\<close> function with one \<open>await\<close>. \<open>loadFeed_enter\<close> is the part
  before it: \<open>Inr False\<close> when the guard returns at once, \<open>Inr True\<close> when the call goes
  on to \<open>fetchFeed\<close>, \<open>Inl\<close> when the skeleton throws before the \<open>try\<close> is entered (and
  \<open>isLoading\<close> stays set). \<open>loadFeed_resume\<close> is the part after it, given how \<open>fetchFeed\<close>
  settled: the rest of the \<open>try\<close>, or the \<open>catch\<close>, then the \<open>finally\<close>.
\<close>

definition loadFeed_enter :: "bool \<Rightarrow> widget \<Rightarrow> (js_error + bool) \<times> widget" where
  "loadFeed_enter isRefresh w =
     (if isLoading w then (Inr False, w)
      else
        (let w1 = w\<lparr>isLoading := True\<rparr> in
         if isRefresh then (Inr True, showLoadingState w1)
         else (case showSkeletonLoader w1 of
                 Inl e \<Rightarrow> (Inl e, w1)
               | Inr w2 \<Rightarrow> (Inr True, w2))))"

definition loadFeed_resume :: "host \<Rightarrow> js_error + feedResult \<Rightarrow> world \<Rightarrow> widget \<Rightarrow> widget" where
  "loadFeed_resume h r s w =
     (let w' = (case r of
                  Inr result \<Rightarrow>
                    render (w\<lparr>posts := filterPosts h w (data result),
                              widget_fromCache := fromCache result,
                              cacheTimestamp := Some (timestamp result),
                              currentPage := 1\<rparr>)
                | Inl e \<Rightarrow> showError h s w)
      in w'\<lparr>isLoading := False\<rparr>)"

text \<open>The whole call, when nothing else runs during the \<open>await\<close>.\<close>

definition loadFeed :: "host \<Rightarrow> bool \<Rightarrow> widget \<times> world \<Rightarrow> widget \<times> world" where
  "loadFeed h isRefresh ws =
     (case loadFeed_enter isRefresh (fst ws) of
        (Inr True, w1) \<Rightarrow>
          (case fetchFeed h (apiUrl (options w1)) (snd ws) of
             (r, s') \<Rightarrow> (loadFeed_resume h r s' w1, s'))
      | (_, w1) \<Rightarrow> (w1, snd ws))"

subsection \<open>One widget on the event loop\<close>

text \<open>
  The page runs one callback at a time. The events that reach a widget: the observer
  reports an intersection, a caller (the refresh button, the pagination buttons, the
  page's own script) calls \<open>loadFeed\<close> or \<open>goToPage\<close>, and the \<open>fetchFeed\<close> a call of
  \<open>loadFeed\<close> is waiting for settles. \<open>active\<close> counts the calls of \<open>loadFeed\<close> that
  have passed the guard and not yet finished.
\<close>

datatype event = Intersect | Call_loadFeed bool | Call_goToPage int | Fetch_settles

record system =
  sys_widget :: widget
  sys_world :: world
  active :: nat

definition call_loadFeed :: "bool \<Rightarrow> system \<Rightarrow> system" where
  "call_loadFeed isRefresh \<sigma> =
     (case loadFeed_enter isRefresh (sys_widget \<sigma>) of
        (Inr True, w1) \<Rightarrow> \<sigma>\<lparr>sys_widget := w1, active := active \<sigma> + 1\<rparr>
      | (_, w1) \<Rightarrow> \<sigma>\<lparr>sys_widget := w1\<rparr>)"

fun step :: "host \<Rightarrow> system \<Rightarrow> event \<Rightarrow> system" where
  "step h \<sigma> Intersect =
     (let w = sys_widget \<sigma> in
      if observing w \<and> \<not> isLoading w \<and> length (posts w) = 0 then
        (let \<sigma>' = call_loadFeed False \<sigma>
         in \<sigma>'\<lparr>sys_widget := (sys_widget \<sigma>')\<lparr>observing := False\<rparr>\<rparr>)
      else \<sigma>)"
| "step h \<sigma> (Call_loadFeed isRefresh) = call_loadFeed isRefresh \<sigma>"
| "step h \<sigma> (Call_goToPage page) = \<sigma>\<lparr>sys_widget := goToPage (sys_widget \<sigma>) page\<rparr>"
| "step h \<sigma> Fetch_settles =
     (if active \<sigma> = 0 then \<sigma>
      else
        (case fetchFeed h (apiUrl (options (sys_widget \<sigma>))) (sys_world \<sigma>) of
           (r, s') \<Rightarrow>
             \<sigma>\<lparr>sys_widget := loadFeed_resume h r s' (sys_widget \<sigma>),
                sys_world := s',
                active := active \<sigma> - 1\<rparr>))"

definition boot :: "host \<Rightarrow> config \<Rightarrow> world \<Rightarrow> system" where
  "boot h c s = \<lparr>sys_widget = constructor h c, sys_world = s, active = 0\<rparr>"

definition run :: "host \<Rightarrow> system \<Rightarrow> event list \<Rightarrow> system" where
  "run h \<sigma> evs = foldl (step h) \<sigma> evs"

section \<open>Notions used in the statements\<close>

text \<open>
  The call with two retries, written out: the worlds after the first, second and third
  attempt, and the result according to how the three requests settle.
\<close>

definition after1 :: "host \<Rightarrow> string \<Rightarrow> world \<Rightarrow> world" where
  "after1 h url w = snd (attemptFetch h url w)"

definition after2 :: "host \<Rightarrow> string \<Rightarrow> world \<Rightarrow> world" where
  "after2 h url w = snd (attemptFetch h url (backoff 0 (after1 h url w)))"

definition after3 :: "host \<Rightarrow> string \<Rightarrow> world \<Rightarrow> world" where
  "after3 h url w = snd (attemptFetch h url (backoff 1 (after2 h url w)))"

definition nth_settle :: "host \<Rightarrow> string \<Rightarrow> world \<Rightarrow> nat \<Rightarrow> js_error + post list" where
  "nth_settle h url w k = settle h (network h url (length (requests w) + k))"

text \<open>
  The guard of \<open>loadFeed\<close> as an invariant of the event loop: no call is in progress,
  or exactly one is and \<open>isLoading\<close> is set.
\<close>

definition guarded :: "system \<Rightarrow> bool" where
  "guarded \<sigma> \<longleftrightarrow> active \<sigma> = 0 \<or> (active \<sigma> = 1 \<and> isLoading (sys_widget \<sigma>))"

text \<open>The pagination invariant of the data model.\<close>

definition pageInRange :: "widget \<Rightarrow> bool" where
  "pageInRange w \<longleftrightarrow> 1 \<le> currentPage w \<and> currentPage w \<le> max 1 (totalPages w)"

section \<open>Hosts, posts and widgets of the examples\<close>

text \<open>
  The examples below run the definitions on one host. Its built-ins are given on the
  arguments the examples use, where they agree with ECMAScript: the serialiser prints the
  three fields of a post without escapes, the parser reads back the two payloads that are
  ever stored, and the clock strings are those of the instants that occur. Local time is
  UTC+09:30. The network answers the \<open>n\<close>-th request with the \<open>n\<close>-th outcome of a
  script, after 120 ms, and is unreachable once the script is used up.
\<close>

definition postA :: post where
  "postA = \<lparr>post_id = ''101'', created_time = ''2025-12-15T09:01:23+0000'',
             message = Some ''a fire today''\<rparr>"

definition postB :: post where
  "postB = \<lparr>post_id = ''102'', created_time = ''yesterday'', message = Some ''calm seas''\<rparr>"

definition postC :: post where
  "postC = \<lparr>post_id = ''103'', created_time = ''2025-12-11T09:00:00+0000'',
             message = Some ''Cyclone warning''\<rparr>"

definition postD :: post where
  "postD = \<lparr>post_id = ''104'', created_time = ''2025-12-10T03:00:00+0000'', message = None\<rparr>"

definition postE :: post where
  "postE = \<lparr>post_id = ''105'', created_time = ''2025-11-15'', message = Some ''FIRE ban lifted''\<rparr>"

definition postJson :: "post \<Rightarrow> string" where
  "postJson p =
     ''{\"id\":\"'' @ post_id p @ ''\",\"created_time\":\"'' @ created_time p @ ''\"'' @
     (case message p of None \<Rightarrow> [] | Some m \<Rightarrow> '',\"message\":\"'' @ m @ ''\"'') @ ''}''"

fun joinWith :: "string \<Rightarrow> string list \<Rightarrow> string" where
  "joinWith sep [] = []"
| "joinWith sep [x] = x"
| "joinWith sep (x # y # ys) = x @ sep @ joinWith sep (y # ys)"

definition demoStringify :: "post list \<Rightarrow> string" where
  "demoStringify ps = ''['' @ joinWith '','' (map postJson ps) @ '']''"

definition demoParse :: "string \<Rightarrow> post list option" where
  "demoParse s =
     (if s = demoStringify [postA, postC] then Some [postA, postC]
      else if s = demoStringify [postD] then Some [postD]
      else if s = ''[]'' then Some []
      else None)"

definition demoISO :: "int \<Rightarrow> string" where
  "demoISO t =
     (if t = 1765789283120 then ''2025-12-15T09:01:23.120Z''
      else if t = 1765789283000 then ''2025-12-15T09:01:23.000Z''
      else ''1970-01-01T00:00:00.000Z'')"

definition demoDate :: "string \<Rightarrow> date" where
  "demoDate s =
     (if s = ''2025-12-15T09:01:23.120Z'' then Date 1765789283120
      else if s = ''2025-12-15T09:01:23.000Z'' \<or> s = ''2025-12-15T09:01:23+0000''
        then Date 1765789283000
      else if s = ''2025-12-11T09:00:00+0000'' then Date 1765443600000
      else if s = ''2025-12-10T03:00:00.000Z'' \<or> s = ''2025-12-10T03:00:00+0000''
        then Date 1765335600000
      else if s = ''2025-12-10'' then Date 1765324800000
      else if s = ''2025-11-15'' then Date 1763164800000
      else if s = ''1970-01-01T00:00:00.000Z'' then Date 0
      else InvalidDate)"

definition scripted :: "outcome list \<Rightarrow> string \<Rightarrow> nat \<Rightarrow> exchange" where
  "scripted script url n =
     \<lparr>latency = 120,
      outcome = (if n < length script then script ! n else Rejects (Error ''Failed to fetch''))\<rparr>"

definition demoHost :: "outcome list \<Rightarrow> host" where
  "demoHost script =
     \<lparr>hostname = ''securent.nt.gov.au'',
      network = scripted script,
      abortError = Error ''The operation was aborted.'',
      JSON_stringify = demoStringify,
      JSON_parse = demoParse,
      toISOString = demoISO,
      Date_parse = demoDate,
      quota_ok = (\<lambda>m k v. True),
      tzOffset = 34200000\<rparr>"

text \<open>The same host with a store that is full once the posts are written.\<close>

definition fullAfterPosts :: "(string \<rightharpoonup> string) \<Rightarrow> string \<Rightarrow> string \<Rightarrow> bool" where
  "fullAfterPosts m k v \<longleftrightarrow> k \<noteq> CACHE_TIME_KEY"

definition tightHost :: host where
  "tightHost = (demoHost [])\<lparr>quota_ok := fullAfterPosts\<rparr>"

text \<open>A page on the developer's machine.\<close>

definition localHost :: host where
  "localHost = (demoHost [Responds 200 (Inr [postD])])\<lparr>hostname := ''localhost''\<rparr>"

definition emptyWorld :: world where
  "emptyWorld = \<lparr>localStorage = Map.empty, clock = 1765789283000, requests = [], waits = []\<rparr>"

definition cachedWorld :: world where
  "cachedWorld =
     emptyWorld\<lparr>localStorage :=
       [CACHE_KEY \<mapsto> demoStringify [postD], CACHE_TIME_KEY \<mapsto> ''2025-12-10T03:00:00.000Z'']\<rparr>"

definition noConfig :: config where
  "noConfig = \<lparr>cfg_apiUrl = Some ''https://example.org/feed'', cfg_itemsPerPage = None,
                cfg_filterKeywords = None, cfg_startDate = None, cfg_endDate = None\<rparr>"

definition keywordConfig :: config where
  "keywordConfig = noConfig\<lparr>cfg_filterKeywords := Some ''fire; Cyclone ;''\<rparr>"

definition dateConfig :: config where
  "dateConfig = noConfig\<lparr>cfg_startDate := Some ''2025-11-15'', cfg_endDate := Some ''2025-12-10''\<rparr>"

definition fivePosts :: widget where
  "fivePosts =
     (constructor (demoHost []) (noConfig\<lparr>cfg_itemsPerPage := Some 2\<rparr>))
       \<lparr>posts := [postA, postB, postC, postD, postE], currentPage := 3\<rparr>"

section \<open>Auxiliary facts\<close>

lemma setItem_fields:
  "setItem h k v w = Inr w' \<Longrightarrow>
     requests w' = requests w \<and> waits w' = waits w \<and> clock w' = clock w"
  by (auto simp: setItem_def split: if_splits)

lemma saveToCache_requests [simp]: "requests (saveToCache h d w) = requests w"
  by (auto simp: saveToCache_def split: sum.splits dest!: setItem_fields)

lemma saveToCache_waits [simp]: "waits (saveToCache h d w) = waits w"
  by (auto simp: saveToCache_def split: sum.splits dest!: setItem_fields)

lemma saveToCache_clock [simp]: "clock (saveToCache h d w) = clock w"
  by (auto simp: saveToCache_def split: sum.splits dest!: setItem_fields)

lemma attemptFetch_fst:
  "fst (attemptFetch h url w) = settle h (network h url (length (requests w)))"
  by (simp add: attemptFetch_def Let_def split: sum.splits)

lemma attemptFetch_requests [simp]:
  "requests (snd (attemptFetch h url w)) = requests w @ [url]"
  by (simp add: attemptFetch_def Let_def split: sum.splits)

lemma attemptFetch_waits [simp]:
  "waits (snd (attemptFetch h url w)) = waits w"
  by (simp add: attemptFetch_def Let_def split: sum.splits)

lemma attemptFetch_clock [simp]:
  "clock (snd (attemptFetch h url w)) =
     clock w + int (min (latency (network h url (length (requests w)))) API_TIMEOUT)"
  by (simp add: attemptFetch_def Let_def split: sum.splits)

lemma backoff_requests [simp]: "requests (backoff a w) = requests w"
  by (simp add: backoff_def sleep_def)

lemma backoff_0 [simp]:
  "waits (backoff 0 w) = waits w @ [1000]" "clock (backoff 0 w) = clock w + 1000"
  by (simp_all add: backoff_def sleep_def delays_def)

lemma backoff_1 [simp]:
  "waits (backoff (Suc 0) w) = waits w @ [2000]" "clock (backoff (Suc 0) w) = clock w + 2000"
  by (simp_all add: backoff_def sleep_def delays_def)

lemma fetchLoop_ok:
  assumes "attempt \<le> retries" "settle h (network h url (length (requests w))) = Inr d"
  shows "fetchLoop h url retries attempt w = (Inr (Some d), snd (attemptFetch h url w))"
proof -
  obtain r w' where a: "attemptFetch h url w = (r, w')" by (cases "attemptFetch h url w")
  with assms(2) attemptFetch_fst [of h url w] have "r = Inr d" by simp
  with a assms(1) show ?thesis by (simp add: fetchLoop.simps [of h url retries attempt w])
qed

lemma fetchLoop_last:
  assumes "settle h (network h url (length (requests w))) = Inl e"
  shows "fetchLoop h url retries retries w = (Inl e, snd (attemptFetch h url w))"
proof -
  obtain r w' where a: "attemptFetch h url w = (r, w')" by (cases "attemptFetch h url w")
  with assms attemptFetch_fst [of h url w] have "r = Inl e" by simp
  with a show ?thesis by (simp add: fetchLoop.simps [of h url retries retries w])
qed

lemma fetchLoop_retry:
  assumes "attempt < retries" "settle h (network h url (length (requests w))) = Inl e"
  shows "fetchLoop h url retries attempt w =
         fetchLoop h url retries (Suc attempt) (backoff attempt (snd (attemptFetch h url w)))"
proof -
  obtain r w' where a: "attemptFetch h url w = (r, w')" by (cases "attemptFetch h url w")
  with assms(2) attemptFetch_fst [of h url w] have "r = Inl e" by simp
  with a assms(1) show ?thesis
    by (simp add: fetchLoop.simps [of h url retries attempt w])
qed

lemma after_requests [simp]:
  "requests (after1 h url w) = requests w @ [url]"
  "requests (after2 h url w) = requests w @ [url, url]"
  "requests (after3 h url w) = requests w @ [url, url, url]"
  by (simp_all add: after1_def after2_def after3_def)

lemma after_waits [simp]:
  "waits (after1 h url w) = waits w"
  "waits (after2 h url w) = waits w @ [1000]"
  "waits (after3 h url w) = waits w @ [1000, 2000]"
  by (simp_all add: after1_def after2_def after3_def)

lemma fetchWithRetry_2:
  "fetchWithRetry h url 2 w =
     (case nth_settle h url w 0 of
        Inr d \<Rightarrow> (Inr (Some d), after1 h url w)
      | Inl e0 \<Rightarrow>
          (case nth_settle h url w 1 of
             Inr d \<Rightarrow> (Inr (Some d), after2 h url w)
           | Inl e1 \<Rightarrow>
               (case nth_settle h url w 2 of
                  Inr d \<Rightarrow> (Inr (Some d), after3 h url w)
                | Inl e2 \<Rightarrow> (Inl e2, after3 h url w))))"
proof (cases "nth_settle h url w 0")
  case (Inr d)
  then show ?thesis
    using fetchLoop_ok [of 0 2 h url w d]
    by (simp add: fetchWithRetry_def nth_settle_def after1_def)
next
  case e0: (Inl e0)
  let ?w1 = "backoff 0 (after1 h url w)"
  have s1: "fetchWithRetry h url 2 w = fetchLoop h url 2 (Suc 0) ?w1"
    using fetchLoop_retry [of 0 2 h url w e0] e0
    by (simp add: fetchWithRetry_def nth_settle_def after1_def)
  have n1: "settle h (network h url (length (requests ?w1))) = nth_settle h url w 1"
    by (simp add: nth_settle_def)
  show ?thesis
  proof (cases "nth_settle h url w 1")
    case (Inr d)
    then show ?thesis
      using fetchLoop_ok [of "Suc 0" 2 h url ?w1 d] n1 e0 s1 by (simp add: after2_def)
  next
    case e1: (Inl e1)
    let ?w2 = "backoff 1 (after2 h url w)"
    have s2: "fetchWithRetry h url 2 w = fetchLoop h url 2 2 ?w2"
      using fetchLoop_retry [of "Suc 0" 2 h url ?w1 e1] e1 n1 s1
      by (simp add: after2_def numeral_2_eq_2)
    have n2: "settle h (network h url (length (requests ?w2))) = nth_settle h url w 2"
      by (simp add: nth_settle_def)
    show ?thesis
    proof (cases "nth_settle h url w 2")
      case (Inr d)
      then show ?thesis
        using fetchLoop_ok [of 2 2 h url ?w2 d] n2 e0 e1 s2 by (simp add: after3_def)
    next
      case (Inl e2)
      then show ?thesis
        using fetchLoop_last [of h url ?w2 e2 2] n2 e0 e1 s2 by (simp add: after3_def)
    qed
  qed
qed

lemma keys_differ [simp]: "CACHE_KEY \<noteq> CACHE_TIME_KEY" "CACHE_TIME_KEY \<noteq> CACHE_KEY"
  by (simp_all add: CACHE_KEY_def CACHE_TIME_KEY_def)

lemma showNat_404 [simp]: "showNat 404 = ''404''"
  by code_simp

lemma showNat_503 [simp]: "showNat 503 = ''503''"
  by code_simp

lemma fetchFeed_snd: "snd (fetchFeed h u w) = snd (fetchWithRetry h (getApiUrl h u) 2 w)"
  by (simp add: fetchFeed_def split: prod.splits sum.splits option.splits)

lemmas demo_defs = demoHost_def scripted_def emptyWorld_def cachedWorld_def API_TIMEOUT_def
  response_ok_def nth_settle_def settle_def getApiUrl_def tightHost_def localHost_def

lemma live_ok:
  "fetchWithRetry (demoHost [Responds 200 (Inr [postA, postC])]) ''https://example.org/feed'' 2 emptyWorld
     = (Inr (Some [postA, postC]), after1 (demoHost [Responds 200 (Inr [postA, postC])]) ''https://example.org/feed'' emptyWorld)"
  unfolding fetchWithRetry_2 by (simp add: demo_defs)

lemma live_down:
  "fetchWithRetry (demoHost []) ''https://example.org/feed'' 2 w
     = (Inl (Error ''Failed to fetch''), after3 (demoHost []) ''https://example.org/feed'' w)"
  unfolding fetchWithRetry_2 by (simp add: demo_defs)

lemma attemptFetch_failed_store:
  "settle h (network h url (length (requests w))) = Inl e \<Longrightarrow>
     localStorage (snd (attemptFetch h url w)) = localStorage w"
  by (simp add: attemptFetch_def Let_def)

lemma backoff_store [simp]: "localStorage (backoff a w) = localStorage w"
  by (simp add: backoff_def sleep_def)

lemma down_store:
  "localStorage (after3 (demoHost []) url w) = localStorage w"
  by (simp add: after3_def after2_def after1_def attemptFetch_failed_store [where e = "Error ''Failed to fetch''"] demo_defs)

lemma getFromCache_cong_store:
  "localStorage w = localStorage w' \<Longrightarrow> getFromCache h w = getFromCache h w'"
  by (simp add: getFromCache_def getItem_def)

lemma demo_cached:
  "getFromCache (demoHost []) cachedWorld = Some \<lparr>data = Some [postD], timestamp = Date 1765335600000\<rparr>"
  by (simp add: getFromCache_def getItem_def demo_defs demoParse_def demoDate_def CACHE_KEY_def CACHE_TIME_KEY_def demoStringify_def postJson_def postA_def postC_def postD_def)

lemma demo_json:
  "demoParse (demoStringify [postA, postC]) = Some [postA, postC]"
  "demoStringify [postA, postC] \<noteq> []"
  "demoParse (demoStringify [postD]) = Some [postD]"
  "demoStringify [postD] \<noteq> []"
  by (simp_all add: demoParse_def demoStringify_def postJson_def postA_def postC_def postD_def)

lemma showNat_500 [simp]: "showNat 500 = ''500''"
  by code_simp

lemma startsWith_iff: "startsWith s k \<longleftrightarrow> (\<exists>v. s = k @ v)"
  by (induction s k rule: startsWith.induct) auto

lemma includesStr_iff: "includesStr s k \<longleftrightarrow> (\<exists>u v. s = u @ k @ v)"
proof (induction s)
  case Nil
  then show ?case by auto
next
  case (Cons x xs)
  have "(\<exists>u v. x # xs = u @ k @ v) \<longleftrightarrow> (\<exists>v. x # xs = k @ v) \<or> (\<exists>u v. xs = u @ k @ v)"
  proof
    assume "\<exists>u v. x # xs = u @ k @ v"
    then obtain u v where uv: "x # xs = u @ k @ v" by blast
    show "(\<exists>v. x # xs = k @ v) \<or> (\<exists>u v. xs = u @ k @ v)"
    proof (cases u)
      case Nil
      with uv show ?thesis by auto
    next
      case (Cons y ys)
      with uv have "xs = ys @ k @ v" by simp
      then show ?thesis by blast
    qed
  next
    assume "(\<exists>v. x # xs = k @ v) \<or> (\<exists>u v. xs = u @ k @ v)"
    then show "\<exists>u v. x # xs = u @ k @ v"
    proof
      assume "\<exists>v. x # xs = k @ v"
      then obtain v where "x # xs = [] @ k @ v" by auto
      then show ?thesis by blast
    next
      assume "\<exists>u v. xs = u @ k @ v"
      then obtain u v where "x # xs = (x # u) @ k @ v" by auto
      then show ?thesis by blast
    qed
  qed
  with Cons show ?case by (simp add: startsWith_iff)
qed

lemma includes_lower_iff:
  "includesStr (toLowerCase s) k \<longleftrightarrow> (\<exists>u m v. s = u @ m @ v \<and> toLowerCase m = k)"
proof
  assume "includesStr (toLowerCase s) k"
  then obtain u' v' where "map lowerChar s = u' @ k @ v'"
    by (auto simp: includesStr_iff toLowerCase_def)
  then obtain u r where s: "s = u @ r" and "map lowerChar r = k @ v'"
    by (metis map_eq_append_conv)
  then obtain m v where "r = m @ v" "map lowerChar m = k"
    by (metis map_eq_append_conv)
  with s show "\<exists>u m v. s = u @ m @ v \<and> toLowerCase m = k"
    by (auto simp: toLowerCase_def)
next
  assume "\<exists>u m v. s = u @ m @ v \<and> toLowerCase m = k"
  then obtain u m v where "s = u @ m @ v" "toLowerCase m = k" by blast
  then have "toLowerCase s = toLowerCase u @ k @ toLowerCase v"
    by (auto simp: toLowerCase_def)
  then show "includesStr (toLowerCase s) k"
    unfolding includesStr_iff by blast
qed

lemma lowerChar_idem [simp]: "lowerChar (lowerChar c) = lowerChar c"
  by (simp add: lowerChar_def Let_def)

lemma toLowerCase_idem [simp]: "toLowerCase (toLowerCase s) = toLowerCase s"
  by (simp add: toLowerCase_def)

lemma parseKeywords_lower:
  "k \<in> set (parseKeywords s) \<Longrightarrow> k \<noteq> [] \<and> toLowerCase k = k"
  by (auto simp: parseKeywords_def)

lemma constructor_keywords:
  "filterKeywords (constructor h c) = Some K \<Longrightarrow> k \<in> set K \<Longrightarrow> k \<noteq> [] \<and> toLowerCase k = k"
  by (auto simp: constructor_def dest: parseKeywords_lower split: if_splits)

lemma setHours_end_of_day:
  assumes "setHours h (Date e) 23 59 59 999 = Date eod"
  shows "eod = (e + tzOffset h) div msPerDay * msPerDay + (msPerDay - 1) - tzOffset h"
  using assms by (simp add: setHours_def Let_def TimeClip_def msPerDay_def split: if_splits)

lemmas post_defs = postA_def postB_def postC_def postD_def postE_def

lemma demo_keywords: "parseKeywords ''fire; Cyclone ;'' = [''fire'', ''cyclone'']"
  by code_simp

lemma demo_keyword_widget:
  "startDate (constructor h keywordConfig) = None"
  "endDate (constructor h keywordConfig) = None"
  "filterKeywords (constructor h keywordConfig) = Some [''fire'', ''cyclone'']"
  by (simp_all add: constructor_def keywordConfig_def noConfig_def truthy_def demo_keywords)

lemma demo_matches:
  "toLowerCase ''a fire today'' = ''a fire today''"
  "toLowerCase ''calm seas'' = ''calm seas''"
  "toLowerCase ''Cyclone warning'' = ''cyclone warning''"
  "toLowerCase ''FIRE ban lifted'' = ''fire ban lifted''"
  "toLowerCase [] = []"
  by code_simp+

lemma demo_date_widget:
  "startDate (constructor (demoHost []) dateConfig) = Some (Date 1763164800000)"
  "endDate (constructor (demoHost []) dateConfig) = Some (Date 1765324800000)"
  "filterKeywords (constructor (demoHost []) dateConfig) = None"
  by (simp_all add: constructor_def dateConfig_def noConfig_def truthy_def demoHost_def demoDate_def)

lemma demo_end_of_day:
  "setHours (demoHost []) (Date 1765324800000) 23 59 59 999 = Date 1765376999999"
  by (simp add: setHours_def demoHost_def msPerDay_def TimeClip_def)

lemma totalPages_div:
  "totalPages w = - ((- int (length (posts w))) div itemsPerPage (options w))"
proof -
  have "real (length (posts w)) = of_int (int (length (posts w)))" by simp
  then show ?thesis
    unfolding totalPages_def by (simp only: ceiling_divide_eq_div)
qed

lemma totalPages_ceiling:
  assumes "0 < itemsPerPage (options w)"
  shows "(totalPages w - 1) * itemsPerPage (options w) < int (length (posts w))"
    and "int (length (posts w)) \<le> totalPages w * itemsPerPage (options w)"
proof -
  let ?k = "real_of_int (itemsPerPage (options w))"
  let ?n = "real (length (posts w))"
  have k: "0 < ?k" using assms by simp
  have "(of_int \<lceil>?n / ?k\<rceil> - 1) * ?k < ?n" by (rule ceiling_divide_lower [OF k])
  then have "real_of_int ((totalPages w - 1) * itemsPerPage (options w)) < real_of_int (int (length (posts w)))"
    by (simp add: totalPages_def)
  then show "(totalPages w - 1) * itemsPerPage (options w) < int (length (posts w))"
    by (simp only: of_int_less_iff)
  have "?n \<le> of_int \<lceil>?n / ?k\<rceil> * ?k" by (rule ceiling_divide_upper [OF k])
  then have "real_of_int (int (length (posts w))) \<le> real_of_int (totalPages w * itemsPerPage (options w))"
    by (simp add: totalPages_def)
  then show "int (length (posts w)) \<le> totalPages w * itemsPerPage (options w)"
    by (simp only: of_int_le_iff)
qed

lemma totalPages_render [simp]: "totalPages (render w) = totalPages w"
  by (simp add: totalPages_def render_def Let_def)

lemma totalPages_goToPage [simp]: "totalPages (goToPage w page) = totalPages w"
  by (simp add: goToPage_def totalPages_def render_def Let_def)

lemma fivePosts_pages: "totalPages fivePosts = 3"
  by (simp add: totalPages_div fivePosts_def constructor_def noConfig_def)

lemma loadFeed_enter_guard: "isLoading w \<Longrightarrow> loadFeed_enter r w = (Inr False, w)"
  by (simp add: loadFeed_enter_def)

lemma loadFeed_enter_sets:
  "\<not> isLoading w \<Longrightarrow> loadFeed_enter r w = (x, w1) \<Longrightarrow> isLoading w1"
  by (auto simp: loadFeed_enter_def Let_def showLoadingState_def showSkeletonLoader_def
      split: if_splits view.splits sum.splits)

lemma call_loadFeed_ignored: "isLoading (sys_widget \<sigma>) \<Longrightarrow> call_loadFeed r \<sigma> = \<sigma>"
  by (simp add: call_loadFeed_def loadFeed_enter_guard)

lemma call_loadFeed_guarded:
  assumes "guarded \<sigma>"
  shows "guarded (call_loadFeed r \<sigma>)"
proof (cases "isLoading (sys_widget \<sigma>)")
  case True
  with assms show ?thesis by (simp add: call_loadFeed_ignored)
next
  case False
  with assms have idle: "active \<sigma> = 0" by (auto simp: guarded_def)
  obtain x w1 where e: "loadFeed_enter r (sys_widget \<sigma>) = (x, w1)"
    by (cases "loadFeed_enter r (sys_widget \<sigma>)")
  with False have "isLoading w1" by (rule loadFeed_enter_sets)
  with e idle show ?thesis
    by (cases x) (auto simp: call_loadFeed_def guarded_def split: bool.splits)
qed

lemma isLoading_render [simp]: "isLoading (render w) = isLoading w"
  by (simp add: render_def Let_def)

lemma isLoading_goToPage [simp]: "isLoading (goToPage w page) = isLoading w"
  by (simp add: goToPage_def)

lemma step_guarded:
  assumes "guarded \<sigma>"
  shows "guarded (step h \<sigma> ev)"
proof (cases ev)
  case Intersect
  have "guarded ((call_loadFeed False \<sigma>)\<lparr>sys_widget := (sys_widget (call_loadFeed False \<sigma>))\<lparr>observing := False\<rparr>\<rparr>)"
    using call_loadFeed_guarded [OF assms, of False] by (simp add: guarded_def)
  with assms Intersect show ?thesis by (simp add: Let_def)
next
  case (Call_loadFeed r)
  with assms show ?thesis by (simp add: call_loadFeed_guarded)
next
  case (Call_goToPage page)
  with assms show ?thesis by (simp add: guarded_def)
next
  case Fetch_settles
  with assms show ?thesis
    by (auto simp: guarded_def loadFeed_resume_def Let_def split: prod.splits)
qed

lemma run_guarded: "guarded \<sigma> \<Longrightarrow> guarded (run h \<sigma> evs)"
  unfolding run_def by (induction evs arbitrary: \<sigma>) (simp_all add: step_guarded)

lemma boot_guarded: "guarded (boot h c s)"
  by (simp add: guarded_def boot_def)

lemma pageInRange_cong:
  "currentPage w' = currentPage w \<Longrightarrow> posts w' = posts w \<Longrightarrow> options w' = options w \<Longrightarrow>
     pageInRange w' = pageInRange w"
  by (simp add: pageInRange_def totalPages_def)

lemma pageInRange_first: "currentPage w = 1 \<Longrightarrow> pageInRange w"
  by (simp add: pageInRange_def)

lemma render_fields [simp]:
  "currentPage (render w) = currentPage w" "posts (render w) = posts w"
  "options (render w) = options w"
  by (simp_all add: render_def Let_def)

lemma goToPage_pageInRange: "pageInRange w \<Longrightarrow> pageInRange (goToPage w page)"
  by (auto simp: pageInRange_def goToPage_def totalPages_def)

lemma showLoadingState_fields [simp]:
  "currentPage (showLoadingState w) = currentPage w" "posts (showLoadingState w) = posts w"
  "options (showLoadingState w) = options w"
  by (cases "view w"; simp add: showLoadingState_def)+

lemma loadFeed_enter_fields:
  "currentPage (snd (loadFeed_enter r w)) = currentPage w \<and>
   posts (snd (loadFeed_enter r w)) = posts w \<and>
   options (snd (loadFeed_enter r w)) = options w"
  by (simp add: loadFeed_enter_def showSkeletonLoader_def Let_def)

lemma call_loadFeed_widget:
  "sys_widget (call_loadFeed r \<sigma>) = snd (loadFeed_enter r (sys_widget \<sigma>))"
proof (cases "loadFeed_enter r (sys_widget \<sigma>)")
  case (Pair x w1)
  then show ?thesis
    by (cases x) (simp_all add: call_loadFeed_def split: bool.splits)
qed

lemma call_loadFeed_pageInRange:
  "pageInRange (sys_widget (call_loadFeed r \<sigma>)) = pageInRange (sys_widget \<sigma>)"
  unfolding call_loadFeed_widget
  by (rule pageInRange_cong) (simp_all add: loadFeed_enter_fields)

lemma pageInRange_isLoading [simp]: "pageInRange (w\<lparr>isLoading := b\<rparr>) = pageInRange w"
  by (rule pageInRange_cong) simp_all

lemma showError_pageInRange: "pageInRange w \<Longrightarrow> pageInRange (showError h s w)"
proof (cases "getCachedFeed h s")
  case None
  assume "pageInRange w"
  moreover have "pageInRange (w\<lparr>view := ErrorBox\<rparr>) = pageInRange w"
    by (rule pageInRange_cong) simp_all
  ultimately show ?thesis using None by (simp add: showError_def)
next
  case (Some cached)
  then show ?thesis by (simp add: showError_def pageInRange_first)
qed

lemma loadFeed_resume_pageInRange:
  assumes "pageInRange w"
  shows "pageInRange (loadFeed_resume h r s w)"
proof (cases r)
  case (Inl e)
  with showError_pageInRange [OF assms] show ?thesis
    by (simp add: loadFeed_resume_def)
next
  case (Inr result)
  then show ?thesis
    by (simp add: loadFeed_resume_def pageInRange_first)
qed

lemma step_pageInRange:
  assumes "pageInRange (sys_widget \<sigma>)"
  shows "pageInRange (sys_widget (step h \<sigma> ev))"
proof (cases ev)
  case Intersect
  have "pageInRange ((sys_widget (call_loadFeed False \<sigma>))\<lparr>observing := False\<rparr>) =
      pageInRange (sys_widget (call_loadFeed False \<sigma>))"
    by (rule pageInRange_cong) simp_all
  with assms Intersect show ?thesis
    by (simp add: Let_def call_loadFeed_pageInRange)
next
  case (Call_loadFeed r)
  with assms show ?thesis by (simp add: call_loadFeed_pageInRange)
next
  case (Call_goToPage page)
  with assms show ?thesis by (simp add: goToPage_pageInRange)
next
  case Fetch_settles
  with assms show ?thesis
    by (auto simp: loadFeed_resume_pageInRange split: prod.splits)
qed

lemma run_pageInRange:
  "pageInRange (sys_widget \<sigma>) \<Longrightarrow> pageInRange (sys_widget (run h \<sigma> evs))"
  unfolding run_def by (induction evs arbitrary: \<sigma>) (simp_all add: step_pageInRange)

lemma boot_pageInRange: "pageInRange (sys_widget (boot h c s))"
  by (simp add: boot_def constructor_def pageInRange_def)

section \<open>The claims\<close>

text \<open>
  Claim C1. Whatever the URL, \<open>fetchFeed\<close> returns the live payload with
  \<open>fromCache = False\<close> and the current time when \<open>fetchWithRetry\<close> succeeds (and the
  payload is then defined); when it fails and \<open>getFromCache\<close> finds an entry, it returns
  the cached posts with \<open>fromCache = True\<close>, the cached timestamp and the message of the
  failure; and it throws an error exactly when the live fetch fails with that error and
  \<open>getFromCache\<close> finds nothing.
\<close>

theorem fetchFeed_contract:
  assumes "fetchWithRetry h (getApiUrl h u) 2 w = (live, w')"
  shows "snd (fetchFeed h u w) = w' \<and>
     (\<forall>d. live = Inr d \<longrightarrow>
        (\<exists>ps. d = Some ps) \<and>
        fst (fetchFeed h u w) =
          Inr \<lparr>data = d, timestamp = Date (clock w'), fromCache = False, error = None\<rparr>) \<and>
     (\<forall>e c. live = Inl e \<and> getFromCache h w' = Some c \<longrightarrow>
        fst (fetchFeed h u w) =
          Inr \<lparr>data = data c, timestamp = timestamp c, fromCache = True,
               error = Some (error_message e)\<rparr>) \<and>
     (\<forall>e. fst (fetchFeed h u w) = Inl e \<longleftrightarrow> live = Inl e \<and> getFromCache h w' = None)"
proof -
  have defined: "\<exists>ps. d = Some ps" if "live = Inr d" for d
    using assms that by (auto simp: fetchWithRetry_2 split: sum.splits)
  show ?thesis
    using assms defined by (auto simp: fetchFeed_def split: sum.splits option.splits)
qed

theorem fetchFeed_contract_witness:
  "fst (fetchFeed (demoHost [Responds 200 (Inr [postA, postC])]) ''https://example.org/feed'' emptyWorld) =
     Inr \<lparr>data = Some [postA, postC], timestamp = Date 1765789283120, fromCache = False, error = None\<rparr> \<and>
   fst (fetchFeed (demoHost []) ''https://example.org/feed'' cachedWorld) =
     Inr \<lparr>data = Some [postD], timestamp = Date 1765335600000, fromCache = True,
          error = Some ''Failed to fetch''\<rparr> \<and>
   fst (fetchFeed (demoHost []) ''https://example.org/feed'' emptyWorld) = Inl (Error ''Failed to fetch'')"
proof (intro conjI)
  let ?u = "''https://example.org/feed''"
  let ?h = "demoHost [Responds 200 (Inr [postA, postC])]"
  have u: "getApiUrl h ?u = ?u" if "hostname h = ''securent.nt.gov.au''" for h
    using that by (simp add: getApiUrl_def)
  have "fetchWithRetry ?h (getApiUrl ?h ?u) 2 emptyWorld = (Inr (Some [postA, postC]), after1 ?h ?u emptyWorld)"
    using live_ok by (simp add: u demoHost_def)
  from fetchFeed_contract [OF this]
  show "fst (fetchFeed ?h ?u emptyWorld) =
     Inr \<lparr>data = Some [postA, postC], timestamp = Date 1765789283120, fromCache = False, error = None\<rparr>"
    by (simp add: after1_def demo_defs)
next
  let ?u = "''https://example.org/feed''"
  let ?h = "demoHost []"
  have "fetchWithRetry ?h (getApiUrl ?h ?u) 2 cachedWorld = (Inl (Error ''Failed to fetch''), after3 ?h ?u cachedWorld)"
    using live_down [of cachedWorld] by (simp add: getApiUrl_def demoHost_def)
  moreover have "getFromCache ?h (after3 ?h ?u cachedWorld) = Some \<lparr>data = Some [postD], timestamp = Date 1765335600000\<rparr>"
    using demo_cached getFromCache_cong_store [OF down_store] by simp
  ultimately show "fst (fetchFeed ?h ?u cachedWorld) =
     Inr \<lparr>data = Some [postD], timestamp = Date 1765335600000, fromCache = True,
          error = Some ''Failed to fetch''\<rparr>"
    using fetchFeed_contract [of ?h ?u cachedWorld "Inl (Error ''Failed to fetch'')" "after3 ?h ?u cachedWorld"]
    by simp
next
  let ?u = "''https://example.org/feed''"
  let ?h = "demoHost []"
  have "fetchWithRetry ?h (getApiUrl ?h ?u) 2 emptyWorld = (Inl (Error ''Failed to fetch''), after3 ?h ?u emptyWorld)"
    using live_down [of emptyWorld] by (simp add: getApiUrl_def demoHost_def)
  moreover have "getFromCache ?h (after3 ?h ?u emptyWorld) = None"
    using getFromCache_cong_store [OF down_store, of ?h ?u emptyWorld]
    by (simp add: getFromCache_def getItem_def emptyWorld_def)
  ultimately show "fst (fetchFeed ?h ?u emptyWorld) = Inl (Error ''Failed to fetch'')"
    using fetchFeed_contract [of ?h ?u emptyWorld "Inl (Error ''Failed to fetch'')" "after3 ?h ?u emptyWorld"]
    by simp
qed

text \<open>
  Claim C2 says that a 4xx response ends the call at once. The loop does otherwise: the
  error thrown for a 4xx status is caught by the \<open>catch\<close> block of the same iteration,
  which treats every error alike. On a network that answers 404 each time, the call makes
  three requests, waits 1000 ms and 2000 ms between them, and then fails with the client
  error.
\<close>

theorem fetchWithRetry_404_retried:
  "fst (fetchWithRetry (demoHost [Responds 404 (Inr []), Responds 404 (Inr []), Responds 404 (Inr [])])
          ''https://example.org/feed'' 2 emptyWorld) = Inl (Error ''API error: 404'') \<and>
   requests (snd (fetchWithRetry (demoHost [Responds 404 (Inr []), Responds 404 (Inr []), Responds 404 (Inr [])])
          ''https://example.org/feed'' 2 emptyWorld)) =
     [''https://example.org/feed'', ''https://example.org/feed'', ''https://example.org/feed''] \<and>
   waits (snd (fetchWithRetry (demoHost [Responds 404 (Inr []), Responds 404 (Inr []), Responds 404 (Inr [])])
          ''https://example.org/feed'' 2 emptyWorld)) = [1000, 2000]"
  unfolding fetchWithRetry_2 by (simp add: demo_defs)

text \<open>
  Claim C3 says that a post whose \<open>created_time\<close> does not parse is excluded when a date
  range is configured. It is kept: both comparisons with an Invalid Date are false, so
  neither early return is taken.
\<close>

theorem filterPosts_date_range_counterexample:
  "Date_parse (demoHost []) (created_time postB) = InvalidDate \<and>
   startDate (constructor (demoHost []) dateConfig) = Some (Date 1763164800000) \<and>
   endDate (constructor (demoHost []) dateConfig) = Some (Date 1765324800000) \<and>
   filterPosts (demoHost []) (constructor (demoHost []) dateConfig) (Some [postB]) = [postB]"
  by (simp add: demo_date_widget filterPosts_def keepPost_def demo_end_of_day)
    (simp add: demoHost_def demoDate_def postB_def)

text \<open>
  Claim C3, amended. With a start date \<open>s\<close> and an end date \<open>e\<close> configured, both valid,
  and \<open>eod\<close> the end date moved by \<open>setHours(23, 59, 59, 999)\<close>, \<open>filterPosts\<close> keeps
  exactly the posts that pass the keyword test and whose \<open>created_time\<close> either parses to
  an instant \<open>t\<close> with \<open>s \<le> t \<le> eod\<close> or does not parse at all. \<open>eod\<close> is the last
  millisecond of the local day that contains \<open>e\<close>.
\<close>

theorem filterPosts_date_range:
  assumes "startDate w = Some (Date s)" and "endDate w = Some (Date e)"
    and "setHours h (Date e) 23 59 59 999 = Date eod"
  shows "filterPosts h w (Some P) =
       filter (\<lambda>p. (case Date_parse h (created_time p) of
                      Date t \<Rightarrow> s \<le> t \<and> t \<le> eod
                    | InvalidDate \<Rightarrow> True) \<and>
                   keepPost h (w\<lparr>startDate := None, endDate := None\<rparr>) p) P \<and>
     (eod + tzOffset h) div msPerDay = (e + tzOffset h) div msPerDay \<and>
     (eod + tzOffset h) mod msPerDay = msPerDay - 1"
proof (intro conjI)
  have "keepPost h w p \<longleftrightarrow>
      (case Date_parse h (created_time p) of Date t \<Rightarrow> s \<le> t \<and> t \<le> eod | InvalidDate \<Rightarrow> True) \<and>
      keepPost h (w\<lparr>startDate := None, endDate := None\<rparr>) p" for p
    using assms by (cases "Date_parse h (created_time p)") (auto simp: keepPost_def)
  then have "keepPost h w = (\<lambda>p.
      (case Date_parse h (created_time p) of Date t \<Rightarrow> s \<le> t \<and> t \<le> eod | InvalidDate \<Rightarrow> True) \<and>
      keepPost h (w\<lparr>startDate := None, endDate := None\<rparr>) p)"
    by (intro ext)
  then show "filterPosts h w (Some P) =
       filter (\<lambda>p. (case Date_parse h (created_time p) of
                      Date t \<Rightarrow> s \<le> t \<and> t \<le> eod
                    | InvalidDate \<Rightarrow> True) \<and>
                   keepPost h (w\<lparr>startDate := None, endDate := None\<rparr>) p) P"
    by (simp add: filterPosts_def)
next
  have eod: "eod + tzOffset h = (e + tzOffset h) div msPerDay * msPerDay + (msPerDay - 1)"
    using setHours_end_of_day [OF assms(3)] by simp
  show "(eod + tzOffset h) div msPerDay = (e + tzOffset h) div msPerDay"
    unfolding eod by (simp add: msPerDay_def)
  show "(eod + tzOffset h) mod msPerDay = msPerDay - 1"
    unfolding eod by (simp add: msPerDay_def)
qed

theorem filterPosts_date_range_witness:
  "filterPosts (demoHost []) (constructor (demoHost []) dateConfig)
     (Some [postA, postB, postC, postD, postE]) = [postB, postD, postE]"
proof -
  let ?h = "demoHost []"
  let ?w = "constructor ?h dateConfig"
  let ?P = "[postA, postB, postC, postD, postE]"
  have kw: "keepPost ?h (?w\<lparr>startDate := None, endDate := None\<rparr>) p" for p
    by (simp add: keepPost_def demo_date_widget)
  have parse: "Date_parse ?h = demoDate"
    by (simp add: demoHost_def)
  from filterPosts_date_range [OF demo_date_widget(1,2) demo_end_of_day, of ?P]
  have "filterPosts ?h ?w (Some ?P) =
      filter (\<lambda>p. (case Date_parse ?h (created_time p) of
                      Date t \<Rightarrow> 1763164800000 \<le> t \<and> t \<le> 1765376999999
                    | InvalidDate \<Rightarrow> True) \<and>
                   keepPost ?h (?w\<lparr>startDate := None, endDate := None\<rparr>) p) ?P"
    by blast
  also have "\<dots> = [postB, postD, postE]"
    unfolding parse by (simp add: kw post_defs demoDate_def)
  finally show ?thesis .
qed

text \<open>
  Claim C4. Without a date range: an absent or empty post list gives the empty list; with
  no keywords, or an empty keyword list, every post is kept; with a non-empty keyword list
  \<open>K\<close> the result is the posts of \<open>P\<close>, in their order, whose message (the empty string
  when absent) has a substring that lower-cases to a member of \<open>K\<close>. The keywords the
  constructor stores are non-empty and in lower case, so the match ignores case.
\<close>

theorem filterPosts_keywords:
  assumes "startDate w = None" and "endDate w = None"
  shows "filterPosts h w None = [] \<and> filterPosts h w (Some []) = [] \<and>
     (filterKeywords w = None \<or> filterKeywords w = Some [] \<longrightarrow> filterPosts h w (Some P) = P) \<and>
     (\<forall>K. filterKeywords w = Some K \<and> K \<noteq> [] \<longrightarrow>
        filterPosts h w (Some P) =
          filter (\<lambda>p. \<exists>k\<in>set K. \<exists>u m v.
                    (case message p of None \<Rightarrow> [] | Some t \<Rightarrow> t) = u @ m @ v \<and> toLowerCase m = k) P) \<and>
     (\<forall>c K. filterKeywords (constructor h c) = Some K \<longrightarrow>
        (\<forall>k\<in>set K. k \<noteq> [] \<and> toLowerCase k = k))"
proof (intro conjI allI impI)
  show "filterPosts h w None = []" "filterPosts h w (Some []) = []"
    by (simp_all add: filterPosts_def)
next
  assume "filterKeywords w = None \<or> filterKeywords w = Some []"
  with assms have "keepPost h w p" for p
    by (auto simp: keepPost_def)
  then show "filterPosts h w (Some P) = P"
    by (simp add: filterPosts_def)
next
  fix K
  assume K: "filterKeywords w = Some K \<and> K \<noteq> []"
  with assms have "keepPost h w p \<longleftrightarrow>
      (\<exists>k\<in>set K. \<exists>u m v. (case message p of None \<Rightarrow> [] | Some t \<Rightarrow> t) = u @ m @ v \<and> toLowerCase m = k)"
    for p
    by (simp add: keepPost_def list_ex_iff includes_lower_iff)
  then have "keepPost h w = (\<lambda>p. \<exists>k\<in>set K. \<exists>u m v.
      (case message p of None \<Rightarrow> [] | Some t \<Rightarrow> t) = u @ m @ v \<and> toLowerCase m = k)"
    by (intro ext)
  then show "filterPosts h w (Some P) =
          filter (\<lambda>p. \<exists>k\<in>set K. \<exists>u m v.
                    (case message p of None \<Rightarrow> [] | Some t \<Rightarrow> t) = u @ m @ v \<and> toLowerCase m = k) P"
    by (simp add: filterPosts_def)
next
  fix c K
  assume "filterKeywords (constructor h c) = Some K"
  then show "\<forall>k\<in>set K. k \<noteq> [] \<and> toLowerCase k = k"
    using constructor_keywords by blast
qed

theorem filterPosts_keywords_witness:
  "filterPosts (demoHost []) (constructor (demoHost []) keywordConfig)
     (Some [postA, postB, postC, postD, postE]) = [postA, postC, postE]"
proof -
  let ?h = "demoHost []"
  let ?w = "constructor ?h keywordConfig"
  let ?P = "[postA, postB, postC, postD, postE]"
  have "filterKeywords ?w = Some [''fire'', ''cyclone''] \<and> [''fire'', ''cyclone''] \<noteq> []"
    by (simp add: demo_keyword_widget)
  with filterPosts_keywords [of ?w ?h ?P, OF demo_keyword_widget(1,2)]
  have "filterPosts ?h ?w (Some ?P) =
      filter (\<lambda>p. \<exists>k\<in>set [''fire'', ''cyclone'']. \<exists>u m v.
                (case message p of None \<Rightarrow> [] | Some t \<Rightarrow> t) = u @ m @ v \<and> toLowerCase m = k) ?P"
    by blast
  also have "\<dots> = filter (\<lambda>p. \<exists>k\<in>set [''fire'', ''cyclone''].
      includesStr (toLowerCase (case message p of None \<Rightarrow> [] | Some t \<Rightarrow> t)) k) ?P"
    by (simp only: includes_lower_iff)
  also have "\<dots> = [postA, postC, postE]"
    by (simp add: post_defs demo_matches)
  finally show ?thesis .
qed

text \<open>
  Claim C5. When both writes of \<open>saveToCache\<close> are accepted, and the host's JSON and date
  built-ins read back what they printed for the payload \<open>X\<close> and for the time of the
  call, \<open>getFromCache\<close> right afterwards returns \<open>X\<close> with that time.
\<close>

theorem cache_round_trip:
  assumes "quota_ok h (localStorage w) CACHE_KEY (JSON_stringify h X)"
    and "quota_ok h ((localStorage w)(CACHE_KEY \<mapsto> JSON_stringify h X)) CACHE_TIME_KEY
           (toISOString h (clock w))"
    and "JSON_parse h (JSON_stringify h X) = Some X"
    and "JSON_stringify h X \<noteq> []"
    and "Date_parse h (toISOString h (clock w)) = Date (clock w)"
    and "toISOString h (clock w) \<noteq> []"
  shows "getFromCache h (saveToCache h X w) = Some \<lparr>data = Some X, timestamp = Date (clock w)\<rparr>"
  using assms by (simp add: saveToCache_def setItem_def getFromCache_def getItem_def)

theorem cache_round_trip_witness:
  "getFromCache (demoHost []) (saveToCache (demoHost []) [postA, postC] emptyWorld) =
     Some \<lparr>data = Some [postA, postC], timestamp = Date 1765789283000\<rparr>"
proof -
  let ?h = "demoHost []"
  have "quota_ok ?h (localStorage emptyWorld) CACHE_KEY (JSON_stringify ?h [postA, postC])"
    and "quota_ok ?h ((localStorage emptyWorld)(CACHE_KEY \<mapsto> JSON_stringify ?h [postA, postC]))
           CACHE_TIME_KEY (toISOString ?h (clock emptyWorld))"
    and "JSON_parse ?h (JSON_stringify ?h [postA, postC]) = Some [postA, postC]"
    and "JSON_stringify ?h [postA, postC] \<noteq> []"
    and "Date_parse ?h (toISOString ?h (clock emptyWorld)) = Date (clock emptyWorld)"
    and "toISOString ?h (clock emptyWorld) \<noteq> []"
    by (simp_all add: demoHost_def emptyWorld_def demo_json demoISO_def demoDate_def)
  from cache_round_trip [OF this] show ?thesis
    by (simp add: emptyWorld_def)
qed

text \<open>
  Claim C6. A call with two retries makes one, two or three requests, all to the same URL,
  and has waited nothing, 1000 ms, or 1000 ms then 2000 ms. When all three attempts fail
  it throws the error of the third, after three requests. When the answers are 503, 503
  and 200 it returns the payload of the third, having waited 1000 ms then 2000 ms.
\<close>

theorem fetchWithRetry_schedule:
  assumes "fetchWithRetry h url 2 w = (res, w')"
  shows "(\<exists>k<3. requests w' = requests w @ replicate (Suc k) url \<and>
                waits w' = waits w @ take k [1000, 2000]) \<and>
     (\<forall>e0 e1 e2.
        settle h (network h url (length (requests w))) = Inl e0 \<and>
        settle h (network h url (length (requests w) + 1)) = Inl e1 \<and>
        settle h (network h url (length (requests w) + 2)) = Inl e2 \<longrightarrow>
        res = Inl e2 \<and> requests w' = requests w @ [url, url, url] \<and>
        waits w' = waits w @ [1000, 2000]) \<and>
     (\<forall>l0 l1 l2 b0 b1 ps.
        network h url (length (requests w)) = \<lparr>latency = l0, outcome = Responds 503 b0\<rparr> \<and>
        network h url (length (requests w) + 1) = \<lparr>latency = l1, outcome = Responds 503 b1\<rparr> \<and>
        network h url (length (requests w) + 2) =
          \<lparr>latency = l2, outcome = Responds 200 (Inr ps)\<rparr> \<and>
        l0 < API_TIMEOUT \<and> l1 < API_TIMEOUT \<and> l2 < API_TIMEOUT \<longrightarrow>
        res = Inr (Some ps) \<and> requests w' = requests w @ [url, url, url] \<and>
        waits w' = waits w @ [1000, 2000] \<and>
        clock w' = clock w + int l0 + 1000 + int l1 + 2000 + int l2)"
proof (intro conjI allI impI)
  have "fetchWithRetry h url 2 w = (res, w')" by (rule assms)
  then have "(requests w' = requests w @ [url] \<and> waits w' = waits w)
      \<or> (requests w' = requests w @ [url, url] \<and> waits w' = waits w @ [1000])
      \<or> (requests w' = requests w @ [url, url, url] \<and> waits w' = waits w @ [1000, 2000])"
    unfolding fetchWithRetry_2 by (auto split: sum.splits)
  then consider
      "requests w' = requests w @ replicate (Suc 0) url \<and> waits w' = waits w @ take 0 [1000, 2000]"
    | "requests w' = requests w @ replicate (Suc 1) url \<and> waits w' = waits w @ take 1 [1000, 2000]"
    | "requests w' = requests w @ replicate (Suc 2) url \<and> waits w' = waits w @ take 2 [1000, 2000]"
    by (auto simp: numeral_2_eq_2)
  then show "\<exists>k<3. requests w' = requests w @ replicate (Suc k) url \<and>
                waits w' = waits w @ take k [1000, 2000]"
  proof cases
    case 1
    then show ?thesis by (intro exI [of _ 0]) simp
  next
    case 2
    then show ?thesis by (intro exI [of _ 1]) simp
  next
    case 3
    then show ?thesis by (intro exI [of _ 2]) simp
  qed
next
  fix e0 e1 e2
  assume "settle h (network h url (length (requests w))) = Inl e0 \<and>
        settle h (network h url (length (requests w) + 1)) = Inl e1 \<and>
        settle h (network h url (length (requests w) + 2)) = Inl e2"
  then have "fetchWithRetry h url 2 w = (Inl e2, after3 h url w)"
    by (simp add: fetchWithRetry_2 nth_settle_def)
  with assms show "res = Inl e2" "requests w' = requests w @ [url, url, url]"
    "waits w' = waits w @ [1000, 2000]"
    by auto
next
  fix l0 l1 l2 b0 b1 ps
  assume a: "network h url (length (requests w)) = \<lparr>latency = l0, outcome = Responds 503 b0\<rparr> \<and>
        network h url (length (requests w) + 1) = \<lparr>latency = l1, outcome = Responds 503 b1\<rparr> \<and>
        network h url (length (requests w) + 2) =
          \<lparr>latency = l2, outcome = Responds 200 (Inr ps)\<rparr> \<and>
        l0 < API_TIMEOUT \<and> l1 < API_TIMEOUT \<and> l2 < API_TIMEOUT"
  then have r: "fetchWithRetry h url 2 w = (Inr (Some ps), after3 h url w)"
    by (simp add: fetchWithRetry_2 nth_settle_def settle_def response_ok_def)
  have "clock (after3 h url w) = clock w + int l0 + 1000 + int l1 + 2000 + int l2"
    using a by (simp add: after3_def after2_def after1_def)
  with r assms show "res = Inr (Some ps)" "requests w' = requests w @ [url, url, url]"
    "waits w' = waits w @ [1000, 2000]"
    "clock w' = clock w + int l0 + 1000 + int l1 + 2000 + int l2"
    by auto
qed

theorem fetchWithRetry_schedule_witness:
  "fst (fetchWithRetry (demoHost [Responds 503 (Inr []), Responds 503 (Inr []), Responds 200 (Inr [postA, postC])])
          ''https://example.org/feed'' 2 emptyWorld) = Inr (Some [postA, postC]) \<and>
   waits (snd (fetchWithRetry (demoHost [Responds 503 (Inr []), Responds 503 (Inr []), Responds 200 (Inr [postA, postC])])
          ''https://example.org/feed'' 2 emptyWorld)) = [1000, 2000] \<and>
   clock (snd (fetchWithRetry (demoHost [Responds 503 (Inr []), Responds 503 (Inr []), Responds 200 (Inr [postA, postC])])
          ''https://example.org/feed'' 2 emptyWorld)) = clock emptyWorld + 3360 \<and>
   fst (fetchWithRetry (demoHost [Responds 503 (Inr []), Responds 503 (Inr []), Responds 500 (Inr [])])
          ''https://example.org/feed'' 2 emptyWorld) = Inl (Error ''HTTP 500'') \<and>
   requests (snd (fetchWithRetry (demoHost [Responds 503 (Inr []), Responds 503 (Inr []), Responds 500 (Inr [])])
          ''https://example.org/feed'' 2 emptyWorld)) =
     [''https://example.org/feed'', ''https://example.org/feed'', ''https://example.org/feed'']"
proof -
  let ?u = "''https://example.org/feed''"
  let ?h = "demoHost [Responds 503 (Inr []), Responds 503 (Inr []), Responds 200 (Inr [postA, postC])]"
  let ?g = "demoHost [Responds 503 (Inr []), Responds 503 (Inr []), Responds 500 (Inr [])]"
  have net:
    "network ?h ?u (length (requests emptyWorld)) = \<lparr>latency = 120, outcome = Responds 503 (Inr [])\<rparr> \<and>
     network ?h ?u (length (requests emptyWorld) + 1) = \<lparr>latency = 120, outcome = Responds 503 (Inr [])\<rparr> \<and>
     network ?h ?u (length (requests emptyWorld) + 2) =
       \<lparr>latency = 120, outcome = Responds 200 (Inr [postA, postC])\<rparr> \<and>
     120 < API_TIMEOUT \<and> 120 < API_TIMEOUT \<and> 120 < API_TIMEOUT"
    by (simp add: demoHost_def scripted_def emptyWorld_def API_TIMEOUT_def)
  have fail:
    "settle ?g (network ?g ?u (length (requests emptyWorld))) = Inl (Error ''HTTP 503'') \<and>
     settle ?g (network ?g ?u (length (requests emptyWorld) + 1)) = Inl (Error ''HTTP 503'') \<and>
     settle ?g (network ?g ?u (length (requests emptyWorld) + 2)) = Inl (Error ''HTTP 500'')"
    by (simp add: demo_defs)
  from fetchWithRetry_schedule [OF prod.collapse [symmetric], of ?h ?u emptyWorld] net
  have a: "fst (fetchWithRetry ?h ?u 2 emptyWorld) = Inr (Some [postA, postC]) \<and>
     waits (snd (fetchWithRetry ?h ?u 2 emptyWorld)) = [1000, 2000] \<and>
     clock (snd (fetchWithRetry ?h ?u 2 emptyWorld)) = clock emptyWorld + 3360"
    by (simp add: emptyWorld_def)
  from fetchWithRetry_schedule [OF prod.collapse [symmetric], of ?g ?u emptyWorld] fail
  have b: "fst (fetchWithRetry ?g ?u 2 emptyWorld) = Inl (Error ''HTTP 500'') \<and>
     requests (snd (fetchWithRetry ?g ?u 2 emptyWorld)) = [?u, ?u, ?u]"
    by (simp add: emptyWorld_def)
  from a b show ?thesis by simp
qed

text \<open>
  Claim C7. For a positive page size, \<open>totalPages\<close> is the ceiling of the number of
  posts over the page size. \<open>goToPage\<close> leaves the widget as it is when the target is
  below 1 or above \<open>totalPages\<close>; otherwise it sets \<open>currentPage\<close> to the target, renders
  that page and scrolls, and changes nothing else. So a \<open>currentPage\<close> between 1 and
  \<open>max 1 totalPages\<close> stays there, and from construction on, whatever the events,
  \<open>currentPage\<close> is in that interval.
\<close>

theorem goToPage_bounds:
  assumes "0 < itemsPerPage (options w)"
  shows "(totalPages w - 1) * itemsPerPage (options w) < int (length (posts w)) \<and>
     int (length (posts w)) \<le> totalPages w * itemsPerPage (options w) \<and>
     (page < 1 \<or> page > totalPages w \<longrightarrow> goToPage w page = w) \<and>
     (1 \<le> page \<and> page \<le> totalPages w \<longrightarrow>
        goToPage w page =
          w\<lparr>currentPage := page,
            view := Feed (slice (posts w) ((page - 1) * itemsPerPage (options w))
                            ((page - 1) * itemsPerPage (options w) + itemsPerPage (options w)))
                      (totalPages w) (widget_fromCache w) False,
            renders := renders w + 1,
            scrolls := scrolls w + 1\<rparr>) \<and>
     (1 \<le> currentPage w \<and> currentPage w \<le> max 1 (totalPages w) \<longrightarrow>
        1 \<le> currentPage (goToPage w page) \<and>
        currentPage (goToPage w page) \<le> max 1 (totalPages (goToPage w page))) \<and>
     1 \<le> currentPage (sys_widget (run h (boot h c s) evs)) \<and>
     currentPage (sys_widget (run h (boot h c s) evs)) \<le>
       max 1 (totalPages (sys_widget (run h (boot h c s) evs)))"
proof (intro conjI impI)
  have "pageInRange (sys_widget (run h (boot h c s) evs))"
    by (rule run_pageInRange [OF boot_pageInRange])
  then show "1 \<le> currentPage (sys_widget (run h (boot h c s) evs))"
    and "currentPage (sys_widget (run h (boot h c s) evs)) \<le>
       max 1 (totalPages (sys_widget (run h (boot h c s) evs)))"
    by (simp_all add: pageInRange_def)
next
  show "(totalPages w - 1) * itemsPerPage (options w) < int (length (posts w))"
    and "int (length (posts w)) \<le> totalPages w * itemsPerPage (options w)"
    using totalPages_ceiling [OF assms] by simp_all
next
  assume "page < 1 \<or> page > totalPages w"
  then show "goToPage w page = w" by (auto simp: goToPage_def)
next
  assume "1 \<le> page \<and> page \<le> totalPages w"
  then show "goToPage w page =
          w\<lparr>currentPage := page,
            view := Feed (slice (posts w) ((page - 1) * itemsPerPage (options w))
                            ((page - 1) * itemsPerPage (options w) + itemsPerPage (options w)))
                      (totalPages w) (widget_fromCache w) False,
            renders := renders w + 1,
            scrolls := scrolls w + 1\<rparr>"
    by (simp add: goToPage_def render_def Let_def totalPages_def)
next
  assume inv: "1 \<le> currentPage w \<and> currentPage w \<le> max 1 (totalPages w)"
  show "1 \<le> currentPage (goToPage w page)"
    using inv by (simp add: goToPage_def render_def Let_def)
  have "currentPage (goToPage w page) \<le> max 1 (totalPages w)"
    using inv by (simp add: goToPage_def render_def Let_def)
  then show "currentPage (goToPage w page) \<le> max 1 (totalPages (goToPage w page))"
    by simp
qed

theorem goToPage_bounds_witness:
  "0 < itemsPerPage (options fivePosts) \<and> totalPages fivePosts = 3 \<and>
   goToPage fivePosts 4 = fivePosts \<and> goToPage fivePosts 0 = fivePosts \<and>
   currentPage (goToPage fivePosts 2) = 2 \<and>
   view (goToPage fivePosts 2) = Feed [postC, postD] 3 False False \<and>
   renders (goToPage fivePosts 2) = renders fivePosts + 1"
proof -
  have k: "0 < itemsPerPage (options fivePosts)"
    by (simp add: fivePosts_def constructor_def noConfig_def)
  have out: "goToPage fivePosts 4 = fivePosts" "goToPage fivePosts 0 = fivePosts"
    using goToPage_bounds [OF k, of 4] goToPage_bounds [OF k, of 0]
    by (simp_all add: fivePosts_pages)
  have "goToPage fivePosts 2 =
      fivePosts\<lparr>currentPage := 2,
        view := Feed (slice (posts fivePosts) ((2 - 1) * itemsPerPage (options fivePosts))
                        ((2 - 1) * itemsPerPage (options fivePosts) + itemsPerPage (options fivePosts)))
                  (totalPages fivePosts) (widget_fromCache fivePosts) False,
        renders := renders fivePosts + 1,
        scrolls := scrolls fivePosts + 1\<rparr>"
    using goToPage_bounds [OF k, of 2] by (simp add: fivePosts_pages)
  then have "currentPage (goToPage fivePosts 2) = 2"
    "view (goToPage fivePosts 2) = Feed [postC, postD] 3 False False"
    "renders (goToPage fivePosts 2) = renders fivePosts + 1"
    by (simp_all add: fivePosts_pages) (simp add: fivePosts_def constructor_def noConfig_def slice_def)
  with k out fivePosts_pages show ?thesis by simp
qed

text \<open>
  Claim C8. A call of \<open>loadFeed\<close> while \<open>isLoading\<close> is set changes neither the widget
  nor the world (so no request is issued), as one call and as an event of the loop. From
  construction on, whatever the events, at most one call of \<open>loadFeed\<close> is in progress,
  and \<open>isLoading\<close> is set while one is.
\<close>

theorem loadFeed_reentrant_ignored:
  "(isLoading w \<longrightarrow> loadFeed h r (w, s) = (w, s)) \<and>
   (isLoading (sys_widget \<sigma>) \<longrightarrow> step h \<sigma> (Call_loadFeed r) = \<sigma>) \<and>
   active (run h (boot h c s) evs) \<le> 1 \<and>
   (active (run h (boot h c s) evs) = 1 \<longrightarrow> isLoading (sys_widget (run h (boot h c s) evs)))"
proof (intro conjI impI)
  assume "isLoading w"
  then show "loadFeed h r (w, s) = (w, s)"
    by (simp add: loadFeed_def loadFeed_enter_guard)
next
  assume "isLoading (sys_widget \<sigma>)"
  then show "step h \<sigma> (Call_loadFeed r) = \<sigma>"
    by (simp add: call_loadFeed_ignored)
next
  have g: "guarded (run h (boot h c s) evs)"
    by (rule run_guarded [OF boot_guarded])
  then show "active (run h (boot h c s) evs) \<le> 1"
    by (auto simp: guarded_def)
  assume "active (run h (boot h c s) evs) = 1"
  with g show "isLoading (sys_widget (run h (boot h c s) evs))"
    by (auto simp: guarded_def)
qed

theorem loadFeed_reentrant_ignored_witness:
  "isLoading (sys_widget (run (demoHost []) (boot (demoHost []) noConfig emptyWorld) [Intersect])) \<and>
   active (run (demoHost []) (boot (demoHost []) noConfig emptyWorld) [Intersect]) = 1 \<and>
   step (demoHost []) (run (demoHost []) (boot (demoHost []) noConfig emptyWorld) [Intersect])
     (Call_loadFeed True) =
     run (demoHost []) (boot (demoHost []) noConfig emptyWorld) [Intersect] \<and>
   requests (sys_world (run (demoHost []) (boot (demoHost []) noConfig emptyWorld)
     [Intersect, Call_loadFeed True, Call_loadFeed False])) = []"
proof -
  let ?h = "demoHost []"
  let ?\<sigma> = "run ?h (boot ?h noConfig emptyWorld) [Intersect]"
  have loading: "isLoading (sys_widget ?\<sigma>)" and one: "active ?\<sigma> = 1"
    by (simp_all add: run_def boot_def constructor_def noConfig_def Let_def call_loadFeed_def
        loadFeed_enter_def showSkeletonLoader_def)
  have ignored: "step ?h ?\<sigma> (Call_loadFeed r) = ?\<sigma>" for r
    using loadFeed_reentrant_ignored [of _ ?h r _ ?\<sigma>] loading by blast
  have "run ?h (boot ?h noConfig emptyWorld) [Intersect, Call_loadFeed True, Call_loadFeed False] =
      step ?h (step ?h ?\<sigma> (Call_loadFeed True)) (Call_loadFeed False)"
    by (simp add: run_def)
  also have "\<dots> = ?\<sigma>"
    by (simp only: ignored)
  finally have "requests (sys_world (run ?h (boot ?h noConfig emptyWorld)
      [Intersect, Call_loadFeed True, Call_loadFeed False])) = requests (sys_world ?\<sigma>)"
    by simp
  also have "\<dots> = []"
    by (simp add: run_def boot_def constructor_def noConfig_def Let_def call_loadFeed_def
        loadFeed_enter_def showSkeletonLoader_def emptyWorld_def)
  finally show ?thesis
    using loading one ignored [of True] by simp
qed

text \<open>
  Claim C9. Every request \<open>fetchFeed\<close> makes (there are one to three) goes to
  \<open>mock-data.json\<close> when the hostname is \<open>localhost\<close>, \<open>127.0.0.1\<close> or empty, and to
  the URL it was given on any other hostname.
\<close>

theorem fetchFeed_target:
  "\<exists>n. 1 \<le> n \<and> n \<le> 3 \<and>
     requests (snd (fetchFeed h u w)) =
       requests w @ replicate n
         (if hostname h = ''localhost'' \<or> hostname h = ''127.0.0.1'' \<or> hostname h = ''''
          then ''mock-data.json'' else u)"
proof -
  let ?url = "getApiUrl h u"
  let ?w' = "snd (fetchWithRetry h ?url 2 w)"
  have "requests ?w' = requests w @ [?url] \<or> requests ?w' = requests w @ [?url, ?url]
      \<or> requests ?w' = requests w @ [?url, ?url, ?url]"
    unfolding fetchWithRetry_2 by (simp split: sum.splits)
  then consider "requests ?w' = requests w @ replicate 1 ?url"
    | "requests ?w' = requests w @ replicate 2 ?url"
    | "requests ?w' = requests w @ replicate 3 ?url"
    by (auto simp: numeral_2_eq_2 numeral_3_eq_3)
  then have "\<exists>n. 1 \<le> n \<and> n \<le> 3 \<and> requests ?w' = requests w @ replicate n ?url"
  proof cases
    case 1
    then show ?thesis by (intro exI [of _ 1]) simp
  next
    case 2
    then show ?thesis by (intro exI [of _ 2]) simp
  next
    case 3
    then show ?thesis by (intro exI [of _ 3]) simp
  qed
  then show ?thesis
    unfolding fetchFeed_snd getApiUrl_def .
qed

theorem fetchFeed_target_witness:
  "\<exists>n. 1 \<le> n \<and> n \<le> 3 \<and>
     requests (snd (fetchFeed localHost ''https://example.org/feed'' emptyWorld)) =
       replicate n ''mock-data.json''"
  using fetchFeed_target [of localHost "''https://example.org/feed''" emptyWorld]
  by (simp add: localHost_def demoHost_def emptyWorld_def)

text \<open>
  Claim C10 says that after a second write that throws, \<open>getFromCache\<close> returns the new
  posts with the previous timestamp, whatever the cache held before. When the cache held
  no timestamp there is none to pair with, and \<open>getFromCache\<close> returns \<open>null\<close>.
\<close>

theorem saveToCache_torn_counterexample:
  "quota_ok tightHost (localStorage emptyWorld) CACHE_KEY (JSON_stringify tightHost [postD]) \<and>
   \<not> quota_ok tightHost ((localStorage emptyWorld)(CACHE_KEY \<mapsto> JSON_stringify tightHost [postD]))
        CACHE_TIME_KEY (toISOString tightHost (clock emptyWorld)) \<and>
   localStorage (saveToCache tightHost [postD] emptyWorld) CACHE_KEY = Some (JSON_stringify tightHost [postD]) \<and>
   getFromCache tightHost (saveToCache tightHost [postD] emptyWorld) = None"
  by (simp add: tightHost_def demoHost_def fullAfterPosts_def emptyWorld_def saveToCache_def
      setItem_def getFromCache_def getItem_def)

text \<open>
  Claim C10, amended. When the first write of \<open>saveToCache\<close> is accepted and the second
  throws, the store holds the new posts and is otherwise as before. If it held a non-empty
  timestamp string, \<open>getFromCache\<close> returns the new posts with that old timestamp; if it
  held none, or the empty string, \<open>getFromCache\<close> returns \<open>null\<close>.
\<close>

theorem saveToCache_torn:
  assumes "quota_ok h (localStorage w) CACHE_KEY (JSON_stringify h X)"
    and "\<not> quota_ok h ((localStorage w)(CACHE_KEY \<mapsto> JSON_stringify h X)) CACHE_TIME_KEY
             (toISOString h (clock w))"
    and "JSON_parse h (JSON_stringify h X) = Some X"
    and "JSON_stringify h X \<noteq> []"
  shows "localStorage (saveToCache h X w) = (localStorage w)(CACHE_KEY \<mapsto> JSON_stringify h X) \<and>
     (\<forall>t0. localStorage w CACHE_TIME_KEY = Some t0 \<and> t0 \<noteq> [] \<longrightarrow>
        getFromCache h (saveToCache h X w) =
          Some \<lparr>data = Some X, timestamp = Date_parse h t0\<rparr>) \<and>
     (localStorage w CACHE_TIME_KEY = None \<or> localStorage w CACHE_TIME_KEY = Some [] \<longrightarrow>
        getFromCache h (saveToCache h X w) = None)"
  using assms by (auto simp: saveToCache_def setItem_def getFromCache_def getItem_def)

theorem saveToCache_torn_witness:
  "localStorage cachedWorld CACHE_TIME_KEY = Some ''2025-12-10T03:00:00.000Z'' \<and>
   localStorage (saveToCache tightHost [postA, postC] cachedWorld) CACHE_TIME_KEY =
     Some ''2025-12-10T03:00:00.000Z'' \<and>
   getFromCache tightHost (saveToCache tightHost [postA, postC] cachedWorld) =
     Some \<lparr>data = Some [postA, postC], timestamp = Date 1765335600000\<rparr>"
proof -
  let ?h = tightHost
  have "quota_ok ?h (localStorage cachedWorld) CACHE_KEY (JSON_stringify ?h [postA, postC])"
    and "\<not> quota_ok ?h ((localStorage cachedWorld)(CACHE_KEY \<mapsto> JSON_stringify ?h [postA, postC]))
             CACHE_TIME_KEY (toISOString ?h (clock cachedWorld))"
    and "JSON_parse ?h (JSON_stringify ?h [postA, postC]) = Some [postA, postC]"
    and "JSON_stringify ?h [postA, postC] \<noteq> []"
    by (simp_all add: tightHost_def demoHost_def fullAfterPosts_def demo_json)
  from saveToCache_torn [OF this] show ?thesis
    by (simp add: cachedWorld_def emptyWorld_def tightHost_def demoHost_def demoDate_def)
qed

end
